theory Spec2Isabelle
  imports Complex_Main "HOL-Library.Word" "HOL-Library.Sublist" "HOL-Library.Multiset"
begin

section \<open>Strings of the host language\<close>

text \<open>
  \<^verbatim>\<open>static/js/search.js\<close> works on JavaScript strings: finite sequences of
  16-bit code units. \<open>length\<close>, \<open>indexOf\<close> and \<open>slice\<close> count code units, so a
  string is a list of \<open>16 word\<close>. \<open>js\<close> turns an Isabelle literal into such a
  string, one code unit per character.
\<close>

type_synonym jschar = "16 word"
type_synonym jsstring = "jschar list"

definition js :: "string \<Rightarrow> jsstring" where
  "js s = map (\<lambda>c. of_nat (of_char c)) s"

text \<open>
  The class \<^verbatim>\<open>\s\<close> of a regular expression, which is also what
  \<^verbatim>\<open>String.prototype.trim\<close> strips: the WhiteSpace and LineTerminator code
  points of ECMAScript (TAB, LF, VT, FF, CR, SPACE, NBSP, the Unicode space separators,
  LS, PS and the byte order mark).
\<close>

definition isWhiteSpace :: "jschar \<Rightarrow> bool" where
  "isWhiteSpace c \<longleftrightarrow>
     c \<in> set [0x0009, 0x000A, 0x000B, 0x000C, 0x000D, 0x0020, 0x00A0, 0x1680,
              0x2000, 0x2001, 0x2002, 0x2003, 0x2004, 0x2005, 0x2006, 0x2007,
              0x2008, 0x2009, 0x200A, 0x2028, 0x2029, 0x202F, 0x205F, 0x3000, 0xFEFF]"

text \<open>
  \<^verbatim>\<open>String.prototype.toLowerCase\<close> belongs to the host, not to this repository: it
  applies the case mappings of Unicode to every cased letter and may change the length
  of the string (U+0130 becomes the two units U+0069 U+0307). It is a parameter of the
  model, written \<open>toLowerCase\<close>, and the statements below hold for every such function;
  where a statement needs a fact about the host's function, the fact is a hypothesis.
\<close>

type_synonym lower_case = "jsstring \<Rightarrow> jsstring"

section \<open>tokenize\<close>

text \<open>
  \<^verbatim>\<open>
  function tokenize(q) {
    return (q || "").toLowerCase().split(/[\s\-_/.,:;!?()]+/).filter(Boolean);
  }
  \<close>
  \<open>isDelimiter\<close> is the character class of the separator pattern. \<open>splitDelims\<close> is
  \<^verbatim>\<open>split\<close> with that pattern: every maximal run of delimiters ends a piece, so a
  string that starts or ends with a delimiter has an empty first or last piece, and the
  empty string has the one piece \<open>[]\<close>. \<^verbatim>\<open>filter(Boolean)\<close> drops the empty pieces.
  For a string \<open>q\<close>, \<^verbatim>\<open>q || ""\<close> is \<open>q\<close>.
\<close>

definition isDelimiter :: "jschar \<Rightarrow> bool" where
  "isDelimiter c \<longleftrightarrow> isWhiteSpace c \<or> c \<in> set (js ''-_/.,:;!?()'')"

function splitFrom :: "jsstring \<Rightarrow> jsstring \<Rightarrow> jsstring list" where
  "splitFrom piece [] = [piece]"
| "splitFrom piece (c # cs) =
     (if isDelimiter c then piece # splitFrom [] (dropWhile isDelimiter cs)
      else splitFrom (piece @ [c]) cs)"
  by pat_completeness auto
termination
  by (relation "measure (\<lambda>(piece, s). length s)")
     (auto simp: less_Suc_eq_le length_dropWhile_le)

definition splitDelims :: "jsstring \<Rightarrow> jsstring list" where
  "splitDelims s = splitFrom [] s"

definition tokenize :: "lower_case \<Rightarrow> jsstring \<Rightarrow> jsstring list" where
  "tokenize toLowerCase q = filter (\<lambda>t. t \<noteq> []) (splitDelims (toLowerCase q))"

text \<open>
  The specification's wording of the same function: the non-empty maximal runs of
  characters that are not delimiters, in the order of the (lowercased) input. Leading
  delimiters are skipped, the run up to the next delimiter is a token, and so on.
\<close>

function maximalRuns :: "jsstring \<Rightarrow> jsstring list" where
  "maximalRuns s =
     (let r = dropWhile isDelimiter s
      in if r = [] then []
         else takeWhile (\<lambda>c. \<not> isDelimiter c) r #
              maximalRuns (dropWhile (\<lambda>c. \<not> isDelimiter c) r))"
  by pat_completeness auto
termination
proof (relation "measure length", simp, goal_cases)
  case (1 s r)
  then obtain c cs where r: "r = c # cs" and c: "\<not> isDelimiter c"
    by (metis dropWhile_eq_Cons_conv neq_Nil_conv)
  have "length (dropWhile (\<lambda>c. \<not> isDelimiter c) r) \<le> length cs"
    using r c by (simp add: length_dropWhile_le)
  moreover have "length r \<le> length s"
    using 1 by (simp add: length_dropWhile_le)
  ultimately show ?case using r by simp
qed

declare maximalRuns.simps [simp del]

section \<open>buildSnippet\<close>

text \<open>
  \<^verbatim>\<open>lc.indexOf(t)\<close>: the least offset at which \<open>t\<close> starts in \<open>lc\<close>, and
  \<open>-1\<close> when there is none.
\<close>

fun indexOf :: "jsstring \<Rightarrow> jsstring \<Rightarrow> int" where
  "indexOf [] t = (if t = [] then 0 else -1)"
| "indexOf (c # s) t =
     (if prefix t (c # s) then 0
      else (let p = indexOf s t in if p = -1 then -1 else p + 1))"

text \<open>
  \<^verbatim>\<open>
  let pos = -1;
  for (const t of tokens) {
    const p = lc.indexOf(t);
    if (p !== -1 && (pos === -1 || p < pos)) pos = p;
  }
  \<close>
  \<open>nearer\<close> is the body of the loop, \<open>firstMatch\<close> the loop.
\<close>

definition nearer :: "jsstring \<Rightarrow> int \<Rightarrow> jsstring \<Rightarrow> int" where
  "nearer lc pos t =
     (let p = indexOf lc t in if p \<noteq> -1 \<and> (pos = -1 \<or> p < pos) then p else pos)"

definition firstMatch :: "jsstring \<Rightarrow> jsstring list \<Rightarrow> int" where
  "firstMatch lc tokens = foldl (nearer lc) (-1) tokens"

text \<open>
  \<^verbatim>\<open>text.slice(b, e)\<close>: a negative argument counts from the end, both are clamped
  to the string, and an empty range gives the empty string.
\<close>

definition slice :: "jsstring \<Rightarrow> int \<Rightarrow> int \<Rightarrow> jsstring" where
  "slice s b e =
     (let len = int (length s);
          from = (if b < 0 then max (len + b) 0 else min b len);
          to = (if e < 0 then max (len + e) 0 else min e len)
      in take (nat (to - from)) (drop (nat from) s))"

text \<open>
  \<^verbatim>\<open>
  const esc = (s) => s.replace(/[&<>\"']/g, (c) =>
    ({"&":"&amp;","<":"&lt;",">":"&gt;","\"":"&quot;","'":"&#39;"}[c]));
  \<close>
\<close>

definition escUnit :: "jschar \<Rightarrow> jsstring" where
  "escUnit c =
     (if c = 0x26 then js ''&amp;''
      else if c = 0x3C then js ''&lt;''
      else if c = 0x3E then js ''&gt;''
      else if c = 0x22 then js ''&quot;''
      else if c = 0x27 then js ''&#39;''
      else [c])"

definition esc :: "jsstring \<Rightarrow> jsstring" where
  "esc s = concat (map escUnit s)"

text \<open>
  \<^verbatim>\<open>t.replace(/[.*+?^${}()|[\\]\\\\]/g, "\\$&")\<close>. The pattern is a character
  class followed by three more characters: the class is closed by the first \<^verbatim>\<open>]\<close>
  and holds \<^verbatim>\<open>. * + ? ^ $ { } ( ) | [\<close> and the backslash; after it the pattern
  asks for two backslashes and a \<^verbatim>\<open>]\<close>. A match is therefore four code units
  long, and the replacement puts one backslash in front of it. Matches are taken from
  left to right and do not overlap.
\<close>

definition inEscapeClass :: "jschar \<Rightarrow> bool" where
  "inEscapeClass c \<longleftrightarrow> c \<in> set (js ''.*+?^${}()|['') \<or> c = 0x5C"

fun escapeRegExp :: "jsstring \<Rightarrow> jsstring" where
  "escapeRegExp (a # b # c # d # rest) =
     (if inEscapeClass a \<and> b = 0x5C \<and> c = 0x5C \<and> d = 0x5D
      then 0x5C # a # b # c # d # escapeRegExp rest
      else a # escapeRegExp (b # c # d # rest))"
| "escapeRegExp s = s"

text \<open>
  The source text of the pattern made for a token:
  \<^verbatim>\<open>`(${t.replace(...)})`\<close>.
\<close>

definition highlightPattern :: "jsstring \<Rightarrow> jsstring" where
  "highlightPattern t = js ''('' @ escapeRegExp t @ js '')''"

text \<open>
  The regular expression engine belongs to the host, not to this repository, and is a
  parameter of the model: \<open>rx pattern flags subject replacement\<close> stands for
  \<^verbatim>\<open>subject.replace(new RegExp(pattern, flags), replacement)\<close>. The constructor
  throws a SyntaxError on a malformed pattern, which is the result \<open>Inl SyntaxError\<close>.
\<close>

datatype error = SyntaxError

type_synonym regexp_replace =
  "jsstring \<Rightarrow> jsstring \<Rightarrow> jsstring \<Rightarrow> jsstring \<Rightarrow> error + jsstring"

text \<open>
  \<^verbatim>\<open>
  tokens.forEach((t) => {
    if (!t) return;
    const re = new RegExp(`(${...})`, "gi");
    html = html.replace(re, "<mark>$1</mark>");
  });
  \<close>
  An exception leaves the loop and the function.
\<close>

fun highlight :: "regexp_replace \<Rightarrow> jsstring list \<Rightarrow> jsstring \<Rightarrow> error + jsstring" where
  "highlight rx [] html = Inr html"
| "highlight rx (t # ts) html =
     (if t = [] then highlight rx ts html
      else (case rx (highlightPattern t) (js ''gi'') html (js ''<mark>$1</mark>'') of
              Inl e \<Rightarrow> Inl e
            | Inr html' \<Rightarrow> highlight rx ts html'))"

text \<open>The horizontal ellipsis U+2026, one code unit.\<close>

definition ellipsis :: jsstring where
  "ellipsis = [0x2026]"

text \<open>
  \<^verbatim>\<open>function buildSnippet(text, query, maxLen = 200)\<close>. \<open>maxLen\<close> is a number of
  characters, a natural number; positions are integers as in the source, where \<open>-1\<close>
  is "not found". \<^verbatim>\<open>Math.floor(maxLen / 3)\<close> is \<open>maxLen div 3\<close>.
\<close>

definition buildSnippet ::
  "lower_case \<Rightarrow> regexp_replace \<Rightarrow> jsstring \<Rightarrow> jsstring \<Rightarrow> nat \<Rightarrow> error + jsstring" where
  "buildSnippet toLowerCase rx text query maxLen =
     (if text = [] then Inr []
      else
        let lc = toLowerCase text;
            tokens = tokenize toLowerCase query
        in if tokens = [] then Inr (slice text 0 (int maxLen))
           else
             let pos = firstMatch lc tokens
             in if pos = -1 then Inr (slice text 0 (int maxLen))
                else
                  let start = max 0 (pos - int (maxLen div 3));
                      end = min (int (length text)) (start + int maxLen);
                      part = slice text start end
                  in (case highlight rx tokens (esc part) of
                        Inl e \<Rightarrow> Inl e
                      | Inr html \<Rightarrow>
                          Inr ((if start > 0 then ellipsis else []) @ html @
                               (if end < int (length text) then ellipsis else []))))"

section \<open>render\<close>

text \<open>
  A document of the store has optional string fields; \<^verbatim>\<open>a || b\<close> takes \<open>b\<close>
  when \<open>a\<close> is missing or the empty string. A hit carries the reference of its
  document and a score. The score is a finite number, modelled by the real number it
  denotes; the sign of \<^verbatim>\<open>b.score - a.score\<close> is that of the real difference.
\<close>

record doc =
  permalink :: "jsstring option"
  url :: "jsstring option"
  title :: "jsstring option"
  summary :: "jsstring option"
  description :: "jsstring option"
  content :: "jsstring option"
  body :: "jsstring option"

record hit =
  ref :: jsstring
  score :: real

definition emptyDoc :: doc where
  "emptyDoc = \<lparr>permalink = None, url = None, title = None, summary = None,
                description = None, content = None, body = None\<rparr>"

fun orElse :: "jsstring option list \<Rightarrow> jsstring \<Rightarrow> jsstring" where
  "orElse [] d = d"
| "orElse (None # xs) d = orElse xs d"
| "orElse (Some s # xs) d = (if s \<noteq> [] then s else orElse xs d)"

text \<open>
  What \<^verbatim>\<open>render\<close> puts into the results container: nothing
  (\<^verbatim>\<open>innerHTML = ""\<close>), the "No results." paragraph, or a list with one item per
  hit. An item is the link (\<^verbatim>\<open>a.href\<close>, \<^verbatim>\<open>a.textContent\<close>) and, when the
  snippet is not empty, the \<^verbatim>\<open>innerHTML\<close> of the block under it.
\<close>

record item =
  href :: jsstring
  textContent :: jsstring
  snippetHtml :: "jsstring option"

datatype results = Cleared | NoResults | ResultList "item list"

text \<open>
  The body of \<^verbatim>\<open>hits.forEach((hit) => { ... })\<close>:
  \<^verbatim>\<open>
  const doc = store[hit.ref] || {};
  a.href = doc.permalink || doc.url || hit.ref || "#";
  a.textContent = doc.title || doc.permalink || "Untitled";
  const rawText = (doc.summary || doc.description || doc.content || doc.body || "").toString();
  const snippet = buildSnippet(rawText, query, 200);
  if (snippet) { ... p.innerHTML = snippet; li.appendChild(p); }
  \<close>
\<close>

definition renderHit ::
  "lower_case \<Rightarrow> regexp_replace \<Rightarrow> (jsstring \<rightharpoonup> doc) \<Rightarrow> jsstring \<Rightarrow> hit \<Rightarrow> error + item" where
  "renderHit toLowerCase rx store query h =
     (let d = (case store (ref h) of None \<Rightarrow> emptyDoc | Some d \<Rightarrow> d);
          rawText = orElse [summary d, description d, content d, body d] []
      in (case buildSnippet toLowerCase rx rawText query 200 of
            Inl e \<Rightarrow> Inl e
          | Inr snippet \<Rightarrow>
              Inr \<lparr>href = orElse [permalink d, url d, Some (ref h)] (js ''#''),
                   textContent = orElse [title d, permalink d] (js ''Untitled''),
                   snippetHtml = (if snippet \<noteq> [] then Some snippet else None)\<rparr>))"

fun renderHits ::
  "lower_case \<Rightarrow> regexp_replace \<Rightarrow> (jsstring \<rightharpoonup> doc) \<Rightarrow> jsstring \<Rightarrow> hit list \<Rightarrow>
   error + item list" where
  "renderHits toLowerCase rx store query [] = Inr []"
| "renderHits toLowerCase rx store query (h # hs) =
     (case renderHit toLowerCase rx store query h of
        Inl e \<Rightarrow> Inl e
      | Inr it \<Rightarrow>
          (case renderHits toLowerCase rx store query hs of
             Inl e \<Rightarrow> Inl e
           | Inr its \<Rightarrow> Inr (it # its)))"

text \<open>
  \<^verbatim>\<open>render(hits, query)\<close> returns the new content of the results container and
  the exception that left it, if any. The container is emptied first and the list is
  attached last, so an exception leaves it empty.
\<close>

definition render ::
  "lower_case \<Rightarrow> regexp_replace \<Rightarrow> (jsstring \<rightharpoonup> doc) \<Rightarrow> hit list \<Rightarrow> jsstring \<Rightarrow>
   results \<times> error option" where
  "render toLowerCase rx store hits query =
     (if hits = [] then (NoResults, None)
      else (case renderHits toLowerCase rx store query hits of
              Inl e \<Rightarrow> (Cleared, Some e)
            | Inr items \<Rightarrow> (ResultList items, None)))"

section \<open>doSearch\<close>

text \<open>\<^verbatim>\<open>String.prototype.trim\<close>.\<close>

definition trim :: "jsstring \<Rightarrow> jsstring" where
  "trim s = rev (dropWhile isWhiteSpace (rev (dropWhile isWhiteSpace s)))"

text \<open>
  \<^verbatim>\<open>Array.prototype.sort(comparefn)\<close>: a stable sort; \<open>a\<close> stays in front of a
  later \<open>b\<close> unless \<open>comparefn a b\<close> is positive.
\<close>

fun insertBy :: "('a \<Rightarrow> 'a \<Rightarrow> real) \<Rightarrow> 'a \<Rightarrow> 'a list \<Rightarrow> 'a list" where
  "insertBy cmp a [] = [a]"
| "insertBy cmp a (b # bs) = (if cmp a b \<le> 0 then a # b # bs else b # insertBy cmp a bs)"

definition sortBy :: "('a \<Rightarrow> 'a \<Rightarrow> real) \<Rightarrow> 'a list \<Rightarrow> 'a list" where
  "sortBy cmp xs = foldr (insertBy cmp) xs []"

text \<open>
  The loaded index is external: its field names, its search function and its document
  store are parameters. The options handed to \<^verbatim>\<open>idx.search\<close> are
  \<^verbatim>\<open>{ bool: "OR", expand: true }\<close> and, when at least one of the five fields exists,
  \<^verbatim>\<open>fields\<close> with their boosts.
\<close>

record searchOptions =
  optBool :: jsstring
  optExpand :: bool
  optFields :: "(jsstring \<times> nat) list option"

record index =
  idxFields :: "jsstring list"
  idxSearch :: "jsstring \<Rightarrow> searchOptions \<Rightarrow> hit list"
  idxDocs :: "jsstring \<rightharpoonup> doc"

definition boostedFields :: "jsstring list \<Rightarrow> (jsstring \<times> nat) list" where
  "boostedFields fs =
     filter (\<lambda>(f, b). f \<in> set fs)
       [(js ''title'', 8), (js ''summary'', 4), (js ''description'', 4),
        (js ''body'', 2), (js ''content'', 2)]"

definition searchOpts :: "jsstring list \<Rightarrow> searchOptions" where
  "searchOpts fs =
     \<lparr>optBool = js ''OR'', optExpand = True,
      optFields = (if boostedFields fs \<noteq> [] then Some (boostedFields fs) else None)\<rparr>"

text \<open>
  \<^verbatim>\<open>hits.sort((a,b) => (b.score - a.score)).slice(0, 20)\<close>
\<close>

definition topHits :: "hit list \<Rightarrow> hit list" where
  "topHits hits = take 20 (sortBy (\<lambda>a b. score b - score a) hits)"

text \<open>
  The page: the content of the results container, and the calls made to
  \<^verbatim>\<open>idx.search\<close> so far, in order. \<^verbatim>\<open>doSearch(q)\<close> returns the page after
  the call and the exception that left it, if any.
  \<^verbatim>\<open>
  const query = (q || "").trim();
  if (query.length < 2) { resultsEl.innerHTML = ""; return; }
  ...
  const hits = idx.search(query, opts);
  const top = hits.sort((a,b) => (b.score - a.score)).slice(0, 20);
  render(top, query);
  \<close>
\<close>

record page =
  resultsEl :: results
  searchCalls :: "(jsstring \<times> searchOptions) list"

definition doSearch ::
  "lower_case \<Rightarrow> regexp_replace \<Rightarrow> index \<Rightarrow> jsstring \<Rightarrow> page \<Rightarrow> page \<times> error option" where
  "doSearch toLowerCase rx idx q pg =
     (let query = trim q
      in if length query < 2 then (pg\<lparr>resultsEl := Cleared\<rparr>, None)
         else
           let opts = searchOpts (idxFields idx);
               hits = idxSearch idx query opts;
               top = topHits hits;
               (shown, thrown) = render toLowerCase rx (idxDocs idx) top query
           in (pg\<lparr>resultsEl := shown, searchCalls := searchCalls pg @ [(query, opts)]\<rparr>,
               thrown))"

section \<open>A host for evaluation\<close>

text \<open>
  The general statements below hold for every \<open>toLowerCase\<close> and every engine \<open>rx\<close>.
  To run the model on concrete inputs a host is needed; the one defined here is used
  on texts and queries of code units up to U+00FF whose tokens are made of ordinary
  characters, where it does what the host of the program does.

  \<open>latin1LowerCase\<close> is \<^verbatim>\<open>toLowerCase\<close> on strings of code units up to U+00FF
  (Basic Latin and Latin-1 Supplement): \<open>A\<close>..\<open>Z\<close> and U+00C0..U+00DE without the
  multiplication sign U+00D7 move up by 32, the other units stay.

  \<open>literalEngine\<close> is the engine on the patterns that are one capture group around a
  non-empty run of ordinary characters (no syntax character
  \<^verbatim>\<open>^ $ \ . * + ? ( ) [ ] { } |\<close>), with the flags \<^verbatim>\<open>gi\<close>: it replaces the matches of
  the run, found from left to right without overlap and compared without regard to case
  (by \<open>lowerUnit\<close>), and writes the matched text for \<^verbatim>\<open>$1\<close> in the replacement. It
  accepts no other pattern.
\<close>

definition lowerUnit :: "jschar \<Rightarrow> jschar" where
  "lowerUnit c =
     (let n = unat c in
      if (65 \<le> n \<and> n \<le> 90) \<or> (192 \<le> n \<and> n \<le> 222 \<and> n \<noteq> 215) then c + 32 else c)"

definition latin1LowerCase :: lower_case where
  "latin1LowerCase s = map lowerUnit s"

definition isSyntaxCharacter :: "jschar \<Rightarrow> bool" where
  "isSyntaxCharacter c \<longleftrightarrow> c \<in> set (js ''^$.*+?()[]{}|'') \<or> c = 0x5C"

fun matchesAt :: "jsstring \<Rightarrow> jsstring \<Rightarrow> bool" where
  "matchesAt [] s = True"
| "matchesAt (p # ps) [] = False"
| "matchesAt (p # ps) (c # cs) = (lowerUnit p = lowerUnit c \<and> matchesAt ps cs)"

fun expandGroup :: "jsstring \<Rightarrow> jsstring \<Rightarrow> jsstring" where
  "expandGroup (a # b # r) m =
     (if a = 0x24 \<and> b = 0x31 then m @ expandGroup r m else a # expandGroup (b # r) m)"
| "expandGroup r m = r"

function replaceLiteral :: "jsstring \<Rightarrow> jsstring \<Rightarrow> jsstring \<Rightarrow> jsstring" where
  "replaceLiteral lit repl [] = []"
| "replaceLiteral lit repl (c # cs) =
     (if matchesAt lit (c # cs)
      then expandGroup repl (take (length lit) (c # cs)) @
           replaceLiteral lit repl (drop (length lit - 1) cs)
      else c # replaceLiteral lit repl cs)"
  by pat_completeness auto
termination
  by (relation "measure (\<lambda>(lit, repl, s). length s)") auto

definition literalEngine :: regexp_replace where
  "literalEngine pattern flags subject replacement =
     (let lit = butlast (tl pattern)
      in if 2 < length pattern \<and> hd pattern = 0x28 \<and> last pattern = 0x29 \<and>
            (\<forall>c \<in> set lit. \<not> isSyntaxCharacter c) \<and> flags = js ''gi''
         then Inr (replaceLiteral lit replacement subject)
         else Inl SyntaxError)"

section \<open>Properties of tokenize\<close>

lemma maximalRuns_Nil: "maximalRuns [] = []"
  by (simp add: maximalRuns.simps)

lemma maximalRuns_delim: "isDelimiter c \<Longrightarrow> maximalRuns (c # s) = maximalRuns s"
  by (simp add: maximalRuns.simps [of "c # s"] maximalRuns.simps [of s])

lemma maximalRuns_start:
  "\<not> isDelimiter c \<Longrightarrow>
   maximalRuns (c # s) =
     (c # takeWhile (\<lambda>c. \<not> isDelimiter c) s) # maximalRuns (dropWhile (\<lambda>c. \<not> isDelimiter c) s)"
  by (simp add: maximalRuns.simps [of "c # s"])

lemma maximalRuns_dropWhile: "maximalRuns (dropWhile isDelimiter s) = maximalRuns s"
  by (induction s) (simp_all add: maximalRuns_delim)

lemma runs_unfold:
  "s = [] \<or> \<not> isDelimiter (hd s) \<Longrightarrow>
   maximalRuns s =
     (if takeWhile (\<lambda>c. \<not> isDelimiter c) s = [] then []
      else [takeWhile (\<lambda>c. \<not> isDelimiter c) s]) @
     maximalRuns (dropWhile (\<lambda>c. \<not> isDelimiter c) s)"
  by (cases s) (auto simp: maximalRuns_Nil maximalRuns_start)

lemma splitFrom_runs:
  "filter (\<lambda>t. t \<noteq> []) (splitFrom piece s) =
     (if piece @ takeWhile (\<lambda>c. \<not> isDelimiter c) s = [] then []
      else [piece @ takeWhile (\<lambda>c. \<not> isDelimiter c) s]) @
     maximalRuns (dropWhile (\<lambda>c. \<not> isDelimiter c) s)"
proof (induction piece s rule: splitFrom.induct)
  case (1 piece)
  then show ?case by (simp add: maximalRuns_Nil)
next
  case (2 piece c cs)
  show ?case
  proof (cases "isDelimiter c")
    case True
    let ?s = "dropWhile isDelimiter cs"
    have "?s = [] \<or> \<not> isDelimiter (hd ?s)"
      by (metis hd_dropWhile)
    then have run: "maximalRuns ?s =
        (if takeWhile (\<lambda>c. \<not> isDelimiter c) ?s = [] then []
         else [takeWhile (\<lambda>c. \<not> isDelimiter c) ?s]) @
        maximalRuns (dropWhile (\<lambda>c. \<not> isDelimiter c) ?s)"
      by (rule runs_unfold)
    show ?thesis
      using True 2(1) run by (simp add: maximalRuns_delim maximalRuns_dropWhile)
  next
    case False
    then show ?thesis using 2(2) by simp
  qed
qed

lemma tokenize_runs: "tokenize toLowerCase q = maximalRuns (toLowerCase q)"
proof -
  show ?thesis
    unfolding tokenize_def splitDelims_def splitFrom_runs
    by (cases "toLowerCase q") (auto simp: maximalRuns_Nil maximalRuns_start maximalRuns_delim)
qed

lemma maximalRuns_props:
  "t \<in> set (maximalRuns s) \<Longrightarrow> t \<noteq> [] \<and> (\<forall>c \<in> set t. \<not> isDelimiter c) \<and> set t \<subseteq> set s"
proof (induction s arbitrary: t rule: length_induct)
  case (1 s)
  show ?case
  proof (cases s)
    case Nil
    with 1(2) show ?thesis by (simp add: maximalRuns_Nil)
  next
    case (Cons c cs)
    show ?thesis
    proof (cases "isDelimiter c")
      case True
      with 1(2) Cons have "t \<in> set (maximalRuns cs)"
        by (simp add: maximalRuns_delim)
      with 1(1) Cons show ?thesis by fastforce
    next
      case False
      let ?rest = "dropWhile (\<lambda>c. \<not> isDelimiter c) cs"
      from 1(2) Cons False consider
        "t = c # takeWhile (\<lambda>c. \<not> isDelimiter c) cs" | "t \<in> set (maximalRuns ?rest)"
        by (auto simp: maximalRuns_start)
      then show ?thesis
      proof cases
        case 1
        then show ?thesis
          using False Cons by (auto dest: set_takeWhileD)
      next
        case 2
        have "length ?rest < length s"
          using Cons by (simp add: length_dropWhile_le less_Suc_eq_le)
        with 1(1) 2 have "t \<noteq> [] \<and> (\<forall>c \<in> set t. \<not> isDelimiter c) \<and> set t \<subseteq> set ?rest"
          by blast
        moreover have "set ?rest \<subseteq> set s"
          using Cons by (auto dest: set_dropWhileD)
        ultimately show ?thesis by blast
      qed
    qed
  qed
qed

lemma maximalRuns_single:
  assumes "t \<noteq> []" and "\<forall>c \<in> set t. \<not> isDelimiter c"
  shows "maximalRuns t = [t]"
proof -
  from assms obtain c cs where t: "t = c # cs" and c: "\<not> isDelimiter c"
    and cs: "\<forall>c \<in> set cs. \<not> isDelimiter c"
    by (cases t) auto
  from cs have d: "dropWhile (\<lambda>c. \<not> isDelimiter c) cs = []"
    and k: "takeWhile (\<lambda>c. \<not> isDelimiter c) cs = cs"
    by simp_all
  show ?thesis
    unfolding t by (simp add: maximalRuns_start [OF c] d k maximalRuns_Nil)
qed

lemma maximalRuns_all_delims: "\<forall>c \<in> set s. isDelimiter c \<Longrightarrow> maximalRuns s = []"
  by (induction s) (simp_all add: maximalRuns_Nil maximalRuns_delim)

lemma concat_maximalRuns: "concat (maximalRuns s) = filter (\<lambda>c. \<not> isDelimiter c) s"
proof (induction s rule: length_induct)
  case (1 s)
  show ?case
  proof (cases s)
    case Nil
    then show ?thesis by (simp add: maximalRuns_Nil)
  next
    case (Cons c cs)
    show ?thesis
    proof (cases "isDelimiter c")
      case True
      with 1 Cons show ?thesis by (simp add: maximalRuns_delim)
    next
      case False
      let ?rest = "dropWhile (\<lambda>c. \<not> isDelimiter c) cs"
      have "length ?rest < length s"
        using Cons by (simp add: length_dropWhile_le less_Suc_eq_le)
      with 1 have "concat (maximalRuns ?rest) = filter (\<lambda>c. \<not> isDelimiter c) ?rest"
        by blast
      moreover have "filter (\<lambda>c. \<not> isDelimiter c) cs =
          takeWhile (\<lambda>c. \<not> isDelimiter c) cs @ filter (\<lambda>c. \<not> isDelimiter c) ?rest"
        by (induction cs) auto
      ultimately show ?thesis
        using Cons False by (simp add: maximalRuns_start)
    qed
  qed
qed

lemma maximalRuns_sublist: "t \<in> set (maximalRuns s) \<Longrightarrow> sublist t s"
proof (induction s arbitrary: t rule: length_induct)
  case (1 s)
  show ?case
  proof (cases s)
    case Nil
    with 1(2) show ?thesis by (simp add: maximalRuns_Nil)
  next
    case (Cons c cs)
    show ?thesis
    proof (cases "isDelimiter c")
      case True
      with 1(2) Cons have "t \<in> set (maximalRuns cs)"
        by (simp add: maximalRuns_delim)
      with 1(1) Cons have "sublist t cs" by simp
      then show ?thesis
        using Cons by (simp add: sublist_Cons_right)
    next
      case False
      let ?rest = "dropWhile (\<lambda>c. \<not> isDelimiter c) cs"
      from 1(2) Cons False consider
        "t = c # takeWhile (\<lambda>c. \<not> isDelimiter c) cs" | "t \<in> set (maximalRuns ?rest)"
        by (auto simp: maximalRuns_start)
      then show ?thesis
      proof cases
        case 1
        have "prefix (takeWhile (\<lambda>c. \<not> isDelimiter c) cs) cs"
          by (rule takeWhile_is_prefix)
        then have "prefix t s"
          using 1 Cons by simp
        then show ?thesis by (rule prefix_imp_sublist)
      next
        case 2
        have "length ?rest < length s"
          using Cons by (simp add: length_dropWhile_le less_Suc_eq_le)
        with 1(1) 2 have "sublist t ?rest"
          by blast
        moreover have "sublist ?rest cs"
          by (rule suffix_imp_sublist) (rule suffix_dropWhile)
        ultimately have "sublist t cs"
          by (rule sublist_order.order.trans)
        then show ?thesis
          using Cons by (simp add: sublist_Cons_right)
      qed
    qed
  qed
qed

lemma tokenize_nonempty: "t \<in> set (tokenize toLowerCase q) \<Longrightarrow> t \<noteq> []"
  by (auto simp: tokenize_runs dest: maximalRuns_props)

lemma unat_lowerUnit:
  "unat (lowerUnit c) =
     (let n = unat c in
      if (65 \<le> n \<and> n \<le> 90) \<or> (192 \<le> n \<and> n \<le> 222 \<and> n \<noteq> 215) then n + 32 else n)"
  unfolding lowerUnit_def Let_def
  by (auto simp: unat_word_ariths)

lemma lowerUnit_idem: "lowerUnit (lowerUnit c) = lowerUnit c"
  by (simp add: word_unat_eq_iff unat_lowerUnit Let_def)

lemma latin1LowerCase_stable:
  assumes "sublist t (latin1LowerCase s)"
  shows "latin1LowerCase t = t"
proof -
  from assms have "set t \<subseteq> set (latin1LowerCase s)"
    by (rule set_mono_sublist)
  then show ?thesis
    unfolding latin1LowerCase_def
    by (induction t) (auto simp: lowerUnit_idem)
qed

lemmas run_simps = buildSnippet_def tokenize_def splitDelims_def latin1LowerCase_def lowerUnit_def
    js_def isDelimiter_def isWhiteSpace_def firstMatch_def nearer_def slice_def esc_def escUnit_def
    highlightPattern_def inEscapeClass_def literalEngine_def isSyntaxCharacter_def ellipsis_def Let_def

text \<open>
  C7. For every host function \<open>toLowerCase\<close> and every string, \<open>tokenize\<close> returns, in
  order, the non-empty maximal runs of the lowercased input between delimiters (white
  space and the punctuation \<^verbatim>\<open>- _ / . , : ; ! ? ( )\<close>): it agrees with \<open>maximalRuns\<close>,
  every token is a non-empty delimiter-free part of the lowercased input, and the tokens
  put together are the lowercased input without its delimiters. Input made of white
  space only (which the host's lowercasing leaves as it is), and the empty input, give
  no token; as the lowercasing of \<^verbatim>\<open>Hello, World!\<close> is \<^verbatim>\<open>hello, world!\<close>,
  \<^verbatim>\<open>tokenize("Hello, World!")\<close> is \<^verbatim>\<open>["hello", "world"]\<close>.
\<close>

theorem tokenize_maximal_runs:
  "tokenize toLowerCase q = maximalRuns (toLowerCase q) \<and>
   (\<forall>t \<in> set (tokenize toLowerCase q).
      t \<noteq> [] \<and> (\<forall>c \<in> set t. \<not> isDelimiter c) \<and> sublist t (toLowerCase q)) \<and>
   concat (tokenize toLowerCase q) = filter (\<lambda>c. \<not> isDelimiter c) (toLowerCase q) \<and>
   ((\<forall>c \<in> set q. isWhiteSpace c) \<and> toLowerCase q = q \<longrightarrow> tokenize toLowerCase q = []) \<and>
   (toLowerCase (js ''Hello, World!'') = js ''hello, world!'' \<longrightarrow>
      tokenize toLowerCase (js ''Hello, World!'') = [js ''hello'', js ''world'']) \<and>
   (toLowerCase [] = [] \<longrightarrow> tokenize toLowerCase [] = [])"
proof (intro conjI impI)
  show "tokenize toLowerCase q = maximalRuns (toLowerCase q)"
    by (rule tokenize_runs)
  show "\<forall>t \<in> set (tokenize toLowerCase q).
      t \<noteq> [] \<and> (\<forall>c \<in> set t. \<not> isDelimiter c) \<and> sublist t (toLowerCase q)"
    unfolding tokenize_runs
    using maximalRuns_props maximalRuns_sublist by blast
  show "concat (tokenize toLowerCase q) = filter (\<lambda>c. \<not> isDelimiter c) (toLowerCase q)"
    unfolding tokenize_runs by (rule concat_maximalRuns)
  show "tokenize toLowerCase q = []" if h: "(\<forall>c \<in> set q. isWhiteSpace c) \<and> toLowerCase q = q"
  proof -
    from h have "\<forall>c \<in> set q. isDelimiter c"
      unfolding isDelimiter_def by blast
    with h have "\<forall>c \<in> set (toLowerCase q). isDelimiter c"
      by metis
    then have "maximalRuns (toLowerCase q) = []"
      by (rule maximalRuns_all_delims)
    then show ?thesis
      unfolding tokenize_runs .
  qed
  show "tokenize toLowerCase (js ''Hello, World!'') = [js ''hello'', js ''world'']"
    if h: "toLowerCase (js ''Hello, World!'') = js ''hello, world!''"
  proof -
    have "filter (\<lambda>t. t \<noteq> []) (splitDelims (js ''hello, world!'')) = [js ''hello'', js ''world'']"
      by (simp add: splitDelims_def js_def isDelimiter_def isWhiteSpace_def)
    then show ?thesis
      unfolding tokenize_def h .
  qed
  show "tokenize toLowerCase [] = []" if h: "toLowerCase [] = []"
    unfolding tokenize_runs h by (rule maximalRuns_Nil)
qed

theorem tokenize_maximal_runs_witness:
  "list_all isWhiteSpace (js ''  '') \<and> latin1LowerCase (js ''  '') = js ''  '' \<and>
   tokenize latin1LowerCase (js ''  '') = [] \<and>
   latin1LowerCase (js ''Hello, World!'') = js ''hello, world!'' \<and>
   tokenize latin1LowerCase (js ''Hello, World!'') = [js ''hello'', js ''world''] \<and>
   latin1LowerCase [] = [] \<and> tokenize latin1LowerCase [] = [] \<and>
   tokenize latin1LowerCase (js ''Static-Site search'') =
     [js ''static'', js ''site'', js ''search''] \<and>
   js ''site'' \<noteq> [] \<and> list_all (\<lambda>c. \<not> isDelimiter c) (js ''site'') \<and>
   sublist (js ''site'') (latin1LowerCase (js ''Static-Site search''))"
proof -
  have ws: "\<forall>c \<in> set (js ''  ''). isWhiteSpace c"
    by (simp add: js_def isWhiteSpace_def)
  then have lw: "list_all isWhiteSpace (js ''  '')"
    by (simp only: list_all_iff)
  have l1: "latin1LowerCase (js ''  '') = js ''  ''"
    and l2: "latin1LowerCase (js ''Hello, World!'') = js ''hello, world!''"
    and l3: "latin1LowerCase [] = []"
    by (simp_all add: latin1LowerCase_def lowerUnit_def js_def)
  have toks: "tokenize latin1LowerCase (js ''Static-Site search'') =
      [js ''static'', js ''site'', js ''search'']"
    by (simp add: tokenize_def splitDelims_def latin1LowerCase_def lowerUnit_def js_def
        isDelimiter_def isWhiteSpace_def)
  then have mem: "js ''site'' \<in> set (tokenize latin1LowerCase (js ''Static-Site search''))"
    by simp
  note th = tokenize_maximal_runs [where toLowerCase = latin1LowerCase]
  have a: "tokenize latin1LowerCase (js ''  '') = []"
    by (rule th [of "js ''  ''", THEN conjunct2, THEN conjunct2, THEN conjunct2, THEN conjunct1,
          THEN mp, OF conjI [OF ws l1]])
  have b: "tokenize latin1LowerCase (js ''Hello, World!'') = [js ''hello'', js ''world'']"
    by (rule th [of "[]", THEN conjunct2, THEN conjunct2, THEN conjunct2, THEN conjunct2,
          THEN conjunct1, THEN mp, OF l2])
  have c: "tokenize latin1LowerCase [] = []"
    by (rule th [of "[]", THEN conjunct2, THEN conjunct2, THEN conjunct2, THEN conjunct2,
          THEN conjunct2, THEN mp, OF l3])
  note d = th [of "js ''Static-Site search''", THEN conjunct2, THEN conjunct1, THEN bspec, OF mem]
  have d1: "js ''site'' \<noteq> []"
    by (rule d [THEN conjunct1])
  have d2: "list_all (\<lambda>c. \<not> isDelimiter c) (js ''site'')"
    unfolding list_all_iff by (rule d [THEN conjunct2, THEN conjunct1])
  have d3: "sublist (js ''site'') (latin1LowerCase (js ''Static-Site search''))"
    by (rule d [THEN conjunct2, THEN conjunct2])
  show ?thesis
    by (intro conjI) (rule lw l1 a l2 b l3 c toks d1 d2 d3)+
qed

text \<open>
  C10. The claim rests on a property of the host's \<^verbatim>\<open>toLowerCase\<close>, which is the
  hypothesis: the lowercased query holds no character that lowercasing would change, so
  every contiguous part of it is left unchanged. Then \<open>tokenize\<close> does not see the case
  of its input, and every token is unchanged by lowercasing (it has no uppercase
  letter), holds no delimiter, and is a fixpoint: tokenizing it gives the token alone.
\<close>

theorem tokenize_case_invariant_fixpoint:
  assumes "\<And>t. sublist t (toLowerCase q) \<Longrightarrow> toLowerCase t = t"
  shows "tokenize toLowerCase q = tokenize toLowerCase (toLowerCase q) \<and>
         (\<forall>t \<in> set (tokenize toLowerCase q).
            toLowerCase t = t \<and> (\<forall>c \<in> set t. \<not> isDelimiter c) \<and>
            tokenize toLowerCase t = [t])"
proof -
  have idem: "toLowerCase (toLowerCase q) = toLowerCase q"
    by (rule assms) (rule sublist_order.order.refl)
  have "toLowerCase t = t \<and> (\<forall>c \<in> set t. \<not> isDelimiter c) \<and> tokenize toLowerCase t = [t]"
    if "t \<in> set (tokenize toLowerCase q)" for t
  proof -
    from that have run: "t \<in> set (maximalRuns (toLowerCase q))"
      by (simp add: tokenize_runs)
    then have t: "t \<noteq> [] \<and> (\<forall>c \<in> set t. \<not> isDelimiter c) \<and> set t \<subseteq> set (toLowerCase q)"
      by (rule maximalRuns_props)
    from run have "sublist t (toLowerCase q)"
      by (rule maximalRuns_sublist)
    then have "toLowerCase t = t"
      by (rule assms)
    then have "tokenize toLowerCase t = maximalRuns t"
      unfolding tokenize_runs by (rule arg_cong)
    also have "maximalRuns t = [t]"
      using t by (simp add: maximalRuns_single)
    finally show ?thesis
      using t \<open>toLowerCase t = t\<close> by blast
  qed
  then have "\<forall>t \<in> set (tokenize toLowerCase q).
      toLowerCase t = t \<and> (\<forall>c \<in> set t. \<not> isDelimiter c) \<and> tokenize toLowerCase t = [t]"
    by blast
  moreover have "tokenize toLowerCase q = tokenize toLowerCase (toLowerCase q)"
    unfolding tokenize_runs idem ..
  ultimately show ?thesis
    by (rule conjI [rotated])
qed

theorem tokenize_case_invariant_fixpoint_witness:
  "tokenize latin1LowerCase (js ''Zola SEARCH'') =
     tokenize latin1LowerCase (latin1LowerCase (js ''Zola SEARCH'')) \<and>
   tokenize latin1LowerCase (js ''Zola SEARCH'') = [js ''zola'', js ''search''] \<and>
   latin1LowerCase (js ''search'') = js ''search'' \<and>
   list_all (\<lambda>c. \<not> isDelimiter c) (js ''search'') \<and>
   tokenize latin1LowerCase (js ''search'') = [js ''search'']"
proof -
  have toks: "tokenize latin1LowerCase (js ''Zola SEARCH'') = [js ''zola'', js ''search'']"
    by (simp add: tokenize_def splitDelims_def latin1LowerCase_def lowerUnit_def js_def
        isDelimiter_def isWhiteSpace_def)
  then have mem: "js ''search'' \<in> set (tokenize latin1LowerCase (js ''Zola SEARCH''))"
    by simp
  have th: "tokenize latin1LowerCase (js ''Zola SEARCH'') =
        tokenize latin1LowerCase (latin1LowerCase (js ''Zola SEARCH'')) \<and>
      (\<forall>t \<in> set (tokenize latin1LowerCase (js ''Zola SEARCH'')).
         latin1LowerCase t = t \<and> (\<forall>c \<in> set t. \<not> isDelimiter c) \<and>
         tokenize latin1LowerCase t = [t])"
    by (rule tokenize_case_invariant_fixpoint) (rule latin1LowerCase_stable)
  note d = th [THEN conjunct2, THEN bspec, OF mem]
  have d2: "list_all (\<lambda>c. \<not> isDelimiter c) (js ''search'')"
    unfolding list_all_iff by (rule d [THEN conjunct2, THEN conjunct1])
  show ?thesis
    by (intro conjI)
      (rule th [THEN conjunct1] toks d [THEN conjunct1] d2 d [THEN conjunct2, THEN conjunct2])+
qed

section \<open>Properties of buildSnippet\<close>

lemma indexOf_ge: "- 1 \<le> indexOf s t"
  by (induction s) (auto simp: Let_def)

lemma indexOf_le: "indexOf s t \<le> int (length s)"
  by (induction s) (auto simp: Let_def)

lemma indexOf_none: "indexOf s t = - 1 \<longleftrightarrow> \<not> sublist t s"
proof (induction s)
  case Nil
  then show ?case by simp
next
  case (Cons c s)
  have "indexOf s t + 1 \<noteq> - 1"
    using indexOf_ge [of s t] by arith
  with Cons show ?case
    by (auto simp: Let_def sublist_Cons_right)
qed

lemma sublist_iff_indexOf: "sublist t s \<longleftrightarrow> indexOf s t \<noteq> - 1"
  by (simp add: indexOf_none)

lemma indexOf_found:
  "indexOf s t \<noteq> - 1 \<Longrightarrow>
   prefix t (drop (nat (indexOf s t)) s) \<and> (\<forall>i < nat (indexOf s t). \<not> prefix t (drop i s))"
proof (induction s)
  case Nil
  then show ?case by (simp split: if_splits)
next
  case (Cons c s)
  show ?case
  proof (cases "prefix t (c # s)")
    case True
    then show ?thesis by simp
  next
    case False
    with Cons.prems have ne: "indexOf s t \<noteq> - 1"
      by (auto simp: Let_def split: if_splits)
    then have ge: "0 \<le> indexOf s t"
      using indexOf_ge [of s t] by arith
    have eq: "indexOf (c # s) t = indexOf s t + 1"
      using False ne by (simp add: Let_def)
    have n: "nat (indexOf s t + 1) = Suc (nat (indexOf s t))"
      using ge by (simp add: nat_add_distrib)
    from Cons.IH [OF ne] have ih1: "prefix t (drop (nat (indexOf s t)) s)"
      and ih2: "\<forall>i < nat (indexOf s t). \<not> prefix t (drop i s)" by blast+
    have "\<not> prefix t (drop i (c # s))" if "i < Suc (nat (indexOf s t))" for i
      using that False ih2 by (cases i) auto
    then show ?thesis
      unfolding eq n using ih1 by simp
  qed
qed


lemma nearer_ge: "- 1 \<le> a \<Longrightarrow> - 1 \<le> nearer lc a t"
  using indexOf_ge [of lc t] by (simp add: nearer_def Let_def)

lemma foldl_nearer_ge: "- 1 \<le> a \<Longrightarrow> - 1 \<le> foldl (nearer lc) a ts"
  by (induction ts arbitrary: a) (simp_all add: nearer_ge)

lemma foldl_nearer_le: "a \<noteq> - 1 \<Longrightarrow> foldl (nearer lc) a ts \<noteq> - 1 \<and> foldl (nearer lc) a ts \<le> a"
proof (induction ts arbitrary: a)
  case Nil
  then show ?case by simp
next
  case (Cons t ts)
  have "nearer lc a t \<noteq> - 1 \<and> nearer lc a t \<le> a"
    using Cons.prems by (simp add: nearer_def Let_def)
  with Cons.IH [of "nearer lc a t"] show ?case
    by simp
qed

lemma foldl_nearer_none:
  "foldl (nearer lc) a ts = - 1 \<longleftrightarrow> a = - 1 \<and> (\<forall>t \<in> set ts. indexOf lc t = - 1)"
proof (induction ts arbitrary: a)
  case Nil
  then show ?case by simp
next
  case (Cons t ts)
  have "nearer lc a t = - 1 \<longleftrightarrow> a = - 1 \<and> indexOf lc t = - 1"
    by (auto simp: nearer_def Let_def)
  with Cons.IH [of "nearer lc a t"] show ?case
    by auto
qed

lemma foldl_nearer_lower:
  "t \<in> set ts \<Longrightarrow> indexOf lc t \<noteq> - 1 \<Longrightarrow> foldl (nearer lc) a ts \<le> indexOf lc t"
proof (induction ts arbitrary: a)
  case Nil
  then show ?case by simp
next
  case (Cons u ts)
  show ?case
  proof (cases "t = u")
    case True
    with Cons.prems have "nearer lc a u \<noteq> - 1 \<and> nearer lc a u \<le> indexOf lc t"
      by (auto simp: nearer_def Let_def)
    with foldl_nearer_le [of "nearer lc a u" lc ts] show ?thesis
      by simp
  next
    case False
    with Cons show ?thesis by simp
  qed
qed

lemma foldl_nearer_attained:
  "foldl (nearer lc) a ts = a \<or> (\<exists>t \<in> set ts. indexOf lc t = foldl (nearer lc) a ts)"
proof (induction ts arbitrary: a)
  case Nil
  then show ?case by simp
next
  case (Cons t ts)
  have "nearer lc a t = a \<or> nearer lc a t = indexOf lc t"
    by (simp add: nearer_def Let_def)
  with Cons.IH [of "nearer lc a t"] show ?case
    by auto
qed

lemma firstMatch_none: "firstMatch lc ts = - 1 \<longleftrightarrow> (\<forall>t \<in> set ts. \<not> sublist t lc)"
  by (simp add: firstMatch_def foldl_nearer_none indexOf_none)

lemma firstMatch_found:
  assumes "firstMatch lc ts \<noteq> - 1"
  shows "0 \<le> firstMatch lc ts"
    and "firstMatch lc ts \<le> int (length lc)"
    and "\<exists>t \<in> set ts. prefix t (drop (nat (firstMatch lc ts)) lc)"
    and "\<forall>t \<in> set ts. \<forall>i < nat (firstMatch lc ts). \<not> prefix t (drop i lc)"
proof -
  let ?p = "firstMatch lc ts"
  have "- 1 \<le> ?p"
    by (simp add: firstMatch_def foldl_nearer_ge)
  with assms show "0 \<le> ?p" by arith
  from foldl_nearer_attained [of lc "- 1" ts] assms
  obtain t where t: "t \<in> set ts" "indexOf lc t = ?p"
    by (auto simp: firstMatch_def)
  then show "?p \<le> int (length lc)"
    using indexOf_le [of lc t] by simp
  from t assms indexOf_found [of lc t]
  show "\<exists>t \<in> set ts. prefix t (drop (nat ?p) lc)"
    by auto
  show "\<forall>t \<in> set ts. \<forall>i < nat ?p. \<not> prefix t (drop i lc)"
  proof (intro ballI allI impI)
    fix u i
    assume u: "u \<in> set ts" and i: "i < nat ?p"
    show "\<not> prefix u (drop i lc)"
    proof (cases "indexOf lc u = - 1")
      case True
      then have "\<not> sublist u lc"
        by (simp add: indexOf_none)
      moreover have "sublist u lc" if "prefix u (drop i lc)"
      proof -
        from that obtain r where "drop i lc = u @ r"
          by (auto simp: prefix_def)
        then have "lc = take i lc @ u @ r"
          by (metis append_take_drop_id)
        then show ?thesis
          unfolding sublist_def by blast
      qed
      ultimately show ?thesis by blast
    next
      case False
      with u have "?p \<le> indexOf lc u"
        by (simp add: firstMatch_def foldl_nearer_lower)
      with i have "i < nat (indexOf lc u)" by arith
      with False indexOf_found [of lc u] show ?thesis by blast
    qed
  qed
qed


lemma slice_prefix: "slice s 0 (int n) = take n s"
  by (simp add: slice_def Let_def min_def)

lemma slice_window:
  "0 \<le> b \<Longrightarrow> 0 \<le> e \<Longrightarrow> e \<le> int (length s) \<Longrightarrow>
   slice s b e = take (nat (e - b)) (drop (nat b) s)"
  by (simp add: slice_def Let_def min_def)

lemma buildSnippet_found:
  assumes ne: "text \<noteq> []"
    and occ: "\<exists>t \<in> set (tokenize toLowerCase query). sublist t (toLowerCase text)"
  shows "buildSnippet toLowerCase rx text query maxLen =
      (let offset = firstMatch (toLowerCase text) (tokenize toLowerCase query);
           start = max 0 (offset - int (maxLen div 3));
           end = min (int (length text)) (start + int maxLen)
       in case highlight rx (tokenize toLowerCase query)
                 (esc (take (nat (end - start)) (drop (nat start) text))) of
            Inl e \<Rightarrow> Inl e
          | Inr html \<Rightarrow>
              Inr ((if 0 < start then [0x2026] else []) @ html @
                   (if end < int (length text) then [0x2026] else [])))"
proof -
  let ?lc = "toLowerCase text" and ?ts = "tokenize toLowerCase query"
  let ?p = "firstMatch ?lc ?ts"
  let ?start = "max 0 (?p - int (maxLen div 3))"
  let ?stop = "min (int (length text)) (?start + int maxLen)"
  from occ have ts: "?ts \<noteq> []" by auto
  from occ have found: "?p \<noteq> - 1"
    by (simp add: firstMatch_none)
  have "0 \<le> ?start" "0 \<le> ?stop" "?stop \<le> int (length text)"
    by auto
  then have sl: "slice text ?start ?stop = take (nat (?stop - ?start)) (drop (nat ?start) text)"
    by (rule slice_window)
  have "buildSnippet toLowerCase rx text query maxLen =
      (case highlight rx ?ts (esc (slice text ?start ?stop)) of
         Inl e \<Rightarrow> Inl e
       | Inr html \<Rightarrow>
           Inr ((if 0 < ?start then ellipsis else []) @ html @
                (if ?stop < int (length text) then ellipsis else [])))"
    using ne ts found by (simp add: buildSnippet_def Let_def)
  then show ?thesis
    unfolding Let_def sl ellipsis_def .
qed

text \<open>
  C6. For the empty text \<open>buildSnippet\<close> returns the empty string. For a non-empty
  text, when the query has no token or no token occurs in the lowercased text, it
  returns the first \<open>maxLen\<close> characters of the text as they are: nothing is marked
  and no ellipsis is added. This holds for every host function \<open>toLowerCase\<close> and
  every engine.
\<close>

theorem buildSnippet_no_match_verbatim:
  "buildSnippet toLowerCase rx [] query maxLen = Inr [] \<and>
   (text \<noteq> [] \<longrightarrow>
    (\<forall>t \<in> set (tokenize toLowerCase query). \<not> sublist t (toLowerCase text)) \<longrightarrow>
      buildSnippet toLowerCase rx text query maxLen = Inr (take maxLen text))"
  by (simp add: buildSnippet_def Let_def firstMatch_none slice_prefix)

theorem buildSnippet_no_match_verbatim_witness:
  "js ''plain text'' \<noteq> [] \<and> tokenize latin1LowerCase (js ''zola'') = [js ''zola''] \<and>
   \<not> sublist (js ''zola'') (latin1LowerCase (js ''plain text'')) \<and>
   buildSnippet latin1LowerCase literalEngine (js ''plain text'') (js ''zola'') 5 =
     Inr (js ''plain'') \<and>
   buildSnippet latin1LowerCase literalEngine [] (js ''zola'') 5 = Inr []"
proof -
  have ne: "js ''plain text'' \<noteq> []"
    by (simp add: js_def)
  have toks: "tokenize latin1LowerCase (js ''zola'') = [js ''zola'']"
    by (simp add: tokenize_def splitDelims_def latin1LowerCase_def lowerUnit_def js_def
        isDelimiter_def isWhiteSpace_def)
  have no: "\<not> sublist (js ''zola'') (latin1LowerCase (js ''plain text''))"
    by (simp add: sublist_iff_indexOf latin1LowerCase_def lowerUnit_def js_def)
  from buildSnippet_no_match_verbatim
    [of latin1LowerCase literalEngine "js ''zola''" 5 "js ''plain text''"] ne toks no
  have "buildSnippet latin1LowerCase literalEngine (js ''plain text'') (js ''zola'') 5 =
          Inr (take 5 (js ''plain text'')) \<and>
        buildSnippet latin1LowerCase literalEngine [] (js ''zola'') 5 = Inr []"
    by simp
  then show ?thesis
    using ne toks no by (simp add: js_def)
qed

text \<open>
  C5. For every host function \<open>toLowerCase\<close> (which maps the empty string to itself)
  and every engine: when some token occurs in the lowercased text, \<open>offset\<close> is the
  least position at which a token starts there, the window of the text runs from
  \<open>start = max 0 (offset - maxLen div 3)\<close> to \<open>end = min (length text) (start + maxLen)\<close>,
  and the result is the highlighted, escaped window with the ellipsis U+2026 in front
  exactly when \<open>0 < start\<close> and behind exactly when \<open>end < length text\<close>. An exception
  of the highlighting pass is the outcome of \<open>buildSnippet\<close>.
\<close>

theorem buildSnippet_window:
  assumes "\<exists>t \<in> set (tokenize toLowerCase query). sublist t (toLowerCase text)"
    and "toLowerCase [] = []"
  shows "let offset = firstMatch (toLowerCase text) (tokenize toLowerCase query);
             start = max 0 (offset - int (maxLen div 3));
             end = min (int (length text)) (start + int maxLen)
         in 0 \<le> offset \<and>
            (\<exists>t \<in> set (tokenize toLowerCase query).
               prefix t (drop (nat offset) (toLowerCase text))) \<and>
            (\<forall>t \<in> set (tokenize toLowerCase query).
               \<forall>i < nat offset. \<not> prefix t (drop i (toLowerCase text))) \<and>
            buildSnippet toLowerCase rx text query maxLen =
              (case highlight rx (tokenize toLowerCase query)
                      (esc (take (nat (end - start)) (drop (nat start) text))) of
                 Inl e \<Rightarrow> Inl e
               | Inr html \<Rightarrow>
                   Inr ((if 0 < start then [0x2026] else []) @ html @
                        (if end < int (length text) then [0x2026] else [])))"
proof -
  let ?lc = "toLowerCase text" and ?ts = "tokenize toLowerCase query"
  from assms(1) obtain t where t: "t \<in> set ?ts" "sublist t ?lc" by blast
  then have "t \<noteq> []" by (simp add: tokenize_nonempty)
  have ne: "text \<noteq> []"
  proof
    assume "text = []"
    with assms(2) t(2) have "sublist t []" by simp
    with \<open>t \<noteq> []\<close> show False by simp
  qed
  from assms(1) have found: "firstMatch ?lc ?ts \<noteq> - 1"
    by (simp add: firstMatch_none)
  note f = firstMatch_found [OF found]
  from buildSnippet_found [OF ne assms(1), of rx maxLen] f(1) f(3) f(4)
  show ?thesis
    unfolding Let_def by blast
qed

theorem buildSnippet_window_witness:
  "(\<exists>t \<in> set (tokenize latin1LowerCase (js ''Two'')).
      sublist t (latin1LowerCase (js ''one two three''))) \<and>
   latin1LowerCase [] = [] \<and>
   firstMatch (latin1LowerCase (js ''one two three'')) (tokenize latin1LowerCase (js ''Two'')) = 4 \<and>
   buildSnippet latin1LowerCase literalEngine (js ''one two three'') (js ''Two'') 9 =
     Inr (0x2026 # js ''ne <mark>two</mark> th'' @ [0x2026]) \<and>
   buildSnippet latin1LowerCase literalEngine (js ''one two three'') (js ''ONE'') 9 =
     Inr (js ''<mark>one</mark> two t'' @ [0x2026])"
proof -
  have occ: "\<exists>t \<in> set (tokenize latin1LowerCase (js ''Two'')).
      sublist t (latin1LowerCase (js ''one two three''))"
    and occ': "\<exists>t \<in> set (tokenize latin1LowerCase (js ''ONE'')).
      sublist t (latin1LowerCase (js ''one two three''))"
    by (simp_all add: sublist_iff_indexOf tokenize_def splitDelims_def latin1LowerCase_def
        lowerUnit_def js_def isDelimiter_def isWhiteSpace_def)
  have nil: "latin1LowerCase [] = []"
    by (simp add: latin1LowerCase_def)
  have off: "firstMatch (latin1LowerCase (js ''one two three''))
      (tokenize latin1LowerCase (js ''Two'')) = 4"
    and off': "firstMatch (latin1LowerCase (js ''one two three''))
      (tokenize latin1LowerCase (js ''ONE'')) = 0"
    by (simp_all add: run_simps)
  from buildSnippet_window [OF occ nil, of 9 literalEngine]
  have a: "buildSnippet latin1LowerCase literalEngine (js ''one two three'') (js ''Two'') 9 =
     Inr (0x2026 # js ''ne <mark>two</mark> th'' @ [0x2026])"
    unfolding off by (simp add: run_simps)
  from buildSnippet_window [OF occ' nil, of 9 literalEngine]
  have b: "buildSnippet latin1LowerCase literalEngine (js ''one two three'') (js ''ONE'') 9 =
     Inr (js ''<mark>one</mark> two t'' @ [0x2026])"
    unfolding off' by (simp add: run_simps)
  show ?thesis
    by (intro conjI) (rule occ nil off a b)+
qed

text \<open>
  C1. The claim is that every result of \<open>buildSnippet\<close> is HTML-escaped, also in the
  branches without a token and without a match. Those two branches return the prefix
  of the text as it is: with the text \<^verbatim>\<open><b>bold</b>\<close> and a query that matches
  nothing, or one that has no token, the tags come back unescaped, whereas \<open>esc\<close>
  would have written \<^verbatim>\<open>&lt;b&gt;bold&lt;/b&gt;\<close>. \<^verbatim>\<open>render\<close> assigns the result
  to \<^verbatim>\<open>innerHTML\<close> under the comment "safe: escaped+marked inside buildSnippet".
  The strings are Basic Latin, where the host's lowercasing is \<open>latin1LowerCase\<close>.
\<close>

theorem buildSnippet_returns_raw_markup:
  "buildSnippet latin1LowerCase rx (js ''<b>bold</b>'') (js ''zola'') 200 =
     Inr (js ''<b>bold</b>'') \<and>
   buildSnippet latin1LowerCase rx (js ''<b>bold</b>'') (js ''?!'') 200 =
     Inr (js ''<b>bold</b>'') \<and>
   esc (js ''<b>bold</b>'') = js ''&lt;b&gt;bold&lt;/b&gt;''"
  by (simp add: run_simps)

lemma escapeRegExp_without_backslash: "0x5C \<notin> set t \<Longrightarrow> escapeRegExp t = t"
  by (induction t rule: escapeRegExp.induct) auto

text \<open>
  C2. The claim is that every regex-special character of a token is escaped before the
  pattern is built. The escaping replacement matches only a special character that is
  followed by two backslashes and \<^verbatim>\<open>]\<close>, so the token \<^verbatim>\<open>c++\<close> is left as it
  is and the engine is handed the pattern \<^verbatim>\<open>(c++)\<close> with both \<^verbatim>\<open>+\<close> live.
  (By \<open>escapeRegExp_without_backslash\<close> no token without a backslash is changed.)
  The strings are Basic Latin, where the host's lowercasing is \<open>latin1LowerCase\<close>.
\<close>

theorem highlightPattern_keeps_syntax_characters:
  "tokenize latin1LowerCase (js ''c++'') = [js ''c++''] \<and>
   escapeRegExp (js ''c++'') = js ''c++'' \<and>
   highlightPattern (js ''c++'') = js ''(c++)'' \<and>
   buildSnippet latin1LowerCase rx (js ''C++ basics'') (js ''c++'') 200 =
     (case rx (js ''(c++)'') (js ''gi'') (js ''C++ basics'') (js ''<mark>$1</mark>'') of
        Inl e \<Rightarrow> Inl e
      | Inr html \<Rightarrow> Inr html)"
  by (simp add: run_simps split: sum.splits)

text \<open>
  C4 as stated fails: the text \<^verbatim>\<open>one two\<close> is shorter than \<open>maxLen = 9\<close> and
  holds the token \<^verbatim>\<open>two\<close>, at offset 4, which is more than \<open>9 div 3\<close>; the window
  starts at 1 and the result is the ellipsis U+2026 followed by
  \<^verbatim>\<open>ne <mark>two</mark>\<close>, not the whole text \<^verbatim>\<open>one <mark>two</mark>\<close>.
\<close>

theorem buildSnippet_short_text_counterexample:
  "length (js ''one two'') < 9 \<and> js ''one two'' \<noteq> [] \<and>
   js ''two'' \<in> set (tokenize latin1LowerCase (js ''two'')) \<and>
   sublist (js ''two'') (latin1LowerCase (js ''one two'')) \<and>
   buildSnippet latin1LowerCase literalEngine (js ''one two'') (js ''two'') 9 =
     Inr (0x2026 # js ''ne <mark>two</mark>'') \<and>
   highlight literalEngine (tokenize latin1LowerCase (js ''two'')) (esc (js ''one two'')) =
     Inr (js ''one <mark>two</mark>'')"
  by (simp add: run_simps sublist_iff_indexOf)

text \<open>
  C4, amended. For every host function \<open>toLowerCase\<close> and every engine: for a
  non-empty text shorter than \<open>maxLen\<close> in whose lowercased form a token starts at an
  offset of at most \<open>maxLen div 3\<close>, the outcome of \<open>buildSnippet\<close> is the outcome of the
  highlighting pass over the whole escaped text: that markup, with no ellipsis in front
  or behind.
\<close>

theorem buildSnippet_short_text:
  assumes "text \<noteq> []"
    and "length text < maxLen"
    and "t \<in> set (tokenize toLowerCase query)"
    and "prefix t (drop i (toLowerCase text))"
    and "i \<le> maxLen div 3"
  shows "buildSnippet toLowerCase rx text query maxLen =
           highlight rx (tokenize toLowerCase query) (esc text)"
proof -
  let ?lc = "toLowerCase text" and ?ts = "tokenize toLowerCase query"
  let ?p = "firstMatch ?lc ?ts"
  from assms(4) obtain r where "drop i ?lc = t @ r"
    by (auto simp: prefix_def)
  then have "?lc = take i ?lc @ t @ r"
    by (metis append_take_drop_id)
  then have sub: "sublist t ?lc"
    unfolding sublist_def by blast
  with assms(3) have occ: "\<exists>t \<in> set ?ts. sublist t ?lc"
    by blast
  then have found: "?p \<noteq> - 1"
    by (simp add: firstMatch_none)
  note f = firstMatch_found [OF found]
  have "\<not> i < nat ?p"
    using f(4) assms(3,4) by blast
  then have p: "?p \<le> int (maxLen div 3)"
    using assms(5) by arith
  have start: "max 0 (?p - int (maxLen div 3)) = 0"
    using p by simp
  have stop: "min (int (length text)) (0 + int maxLen) = int (length text)"
    using assms(2) by simp
  from buildSnippet_found [OF assms(1) occ, of rx maxLen]
  show ?thesis
    unfolding Let_def start stop
    by (cases "highlight rx (tokenize toLowerCase query) (esc text)") simp_all
qed

theorem buildSnippet_short_text_witness:
  "js ''one two'' \<noteq> [] \<and> length (js ''one two'') < 12 \<and>
   js ''two'' \<in> set (tokenize latin1LowerCase (js ''TWO'')) \<and>
   prefix (js ''two'') (drop 4 (latin1LowerCase (js ''one two''))) \<and> (4::nat) \<le> 12 div 3 \<and>
   buildSnippet latin1LowerCase literalEngine (js ''one two'') (js ''TWO'') 12 =
     Inr (js ''one <mark>two</mark>'')"
proof -
  have n: "js ''one two'' \<noteq> []"
    by (simp add: js_def)
  have a: "length (js ''one two'') < 12"
    by (simp add: js_def)
  have b: "js ''two'' \<in> set (tokenize latin1LowerCase (js ''TWO''))"
    by (simp add: run_simps)
  have c: "prefix (js ''two'') (drop 4 (latin1LowerCase (js ''one two'')))"
    by (simp add: run_simps)
  have d: "(4::nat) \<le> 12 div 3"
    by simp
  have "highlight literalEngine (tokenize latin1LowerCase (js ''TWO'')) (esc (js ''one two'')) =
      Inr (js ''one <mark>two</mark>'')"
    by (simp add: run_simps)
  with buildSnippet_short_text [OF n a b c d, of literalEngine] n a b c d show ?thesis
    by simp
qed

section \<open>Properties of render\<close>

lemma renderHit_missing:
  assumes "store (ref h) = None"
  shows "renderHit toLowerCase rx store query h =
     Inr \<lparr>href = (if ref h = [] then js ''#'' else ref h),
          textContent = js ''Untitled'', snippetHtml = None\<rparr>"
  using assms by (simp add: renderHit_def emptyDoc_def buildSnippet_def Let_def)

lemma renderHits_items:
  "renderHits toLowerCase rx store query hits = Inr items \<Longrightarrow>
   length items = length hits \<and>
   (\<forall>i < length hits. renderHit toLowerCase rx store query (hits ! i) = Inr (items ! i))"
proof (induction hits arbitrary: items)
  case Nil
  then show ?case by simp
next
  case (Cons h hs)
  from Cons.prems obtain it its where it: "renderHit toLowerCase rx store query h = Inr it"
    and its: "renderHits toLowerCase rx store query hs = Inr its" and items: "items = it # its"
    by (auto split: sum.splits)
  from Cons.IH [OF its] have len: "length its = length hs"
    and nth: "\<forall>i < length hs. renderHit toLowerCase rx store query (hs ! i) = Inr (its ! i)"
    by blast+
  have "renderHit toLowerCase rx store query ((h # hs) ! i) = Inr (items ! i)" if "i < length (h # hs)" for i
    using that it nth items by (cases i) auto
  then show ?case
    using len items by simp
qed

lemma render_items:
  "render toLowerCase rx store hits query = (ResultList items, None) \<Longrightarrow>
   length items = length hits \<and>
   (\<forall>i < length hits. renderHit toLowerCase rx store query (hits ! i) = Inr (items ! i))"
  by (auto simp: render_def split: if_splits sum.splits dest: renderHits_items)

text \<open>
  C3, amended. For every host function \<open>toLowerCase\<close> and every engine: for a hit whose reference is not in the document store, the hit is
  rendered as a link whose target is the reference itself (and \<^verbatim>\<open>#\<close> only when
  the reference is the empty string), whose text is \<^verbatim>\<open>Untitled\<close>, and with no
  snippet; this is item \<open>i\<close> of the list that \<open>render\<close> shows.
\<close>

theorem render_missing_document:
  assumes "i < length hits" and "store (ref (hits ! i)) = None"
  shows "renderHit toLowerCase rx store query (hits ! i) =
           Inr \<lparr>href = (if ref (hits ! i) = [] then js ''#'' else ref (hits ! i)),
                textContent = js ''Untitled'', snippetHtml = None\<rparr> \<and>
         (\<forall>items. render toLowerCase rx store hits query = (ResultList items, None) \<longrightarrow>
            items ! i = \<lparr>href = (if ref (hits ! i) = [] then js ''#'' else ref (hits ! i)),
                          textContent = js ''Untitled'', snippetHtml = None\<rparr>)"
proof -
  note m = renderHit_missing [where toLowerCase = toLowerCase and store = store and h = "hits ! i" and rx = rx
      and query = query, OF assms(2)]
  have "items ! i = \<lparr>href = (if ref (hits ! i) = [] then js ''#'' else ref (hits ! i)),
                      textContent = js ''Untitled'', snippetHtml = None\<rparr>"
    if "render toLowerCase rx store hits query = (ResultList items, None)" for items
  proof -
    from render_items [OF that] assms(1)
    have "renderHit toLowerCase rx store query (hits ! i) = Inr (items ! i)"
      by blast
    with m show ?thesis by simp
  qed
  with m show ?thesis by blast
qed

text \<open>
  C3 as stated fails: with an empty store, the hit with the reference
  \<^verbatim>\<open>/about/\<close> is rendered as a link to \<^verbatim>\<open>/about/\<close>, not to \<^verbatim>\<open>#\<close>.
\<close>

theorem render_missing_document_counterexample:
  "Map.empty (js ''/about/'') = (None :: doc option) \<and>
   render latin1LowerCase literalEngine Map.empty [\<lparr>ref = js ''/about/'', score = 1\<rparr>] (js ''cat'') =
     (ResultList [\<lparr>href = js ''/about/'', textContent = js ''Untitled'', snippetHtml = None\<rparr>],
      None) \<and>
   js ''/about/'' \<noteq> js ''#''"
  by (simp add: render_def renderHit_def emptyDoc_def buildSnippet_def Let_def js_def)

theorem render_missing_document_witness:
  "(0::nat) < length [\<lparr>ref = js ''/about/'', score = 1\<rparr>, \<lparr>ref = [], score = 1\<rparr>] \<and>
   Map.empty (js ''/about/'') = (None :: doc option) \<and>
   render latin1LowerCase literalEngine Map.empty [\<lparr>ref = js ''/about/'', score = 1\<rparr>, \<lparr>ref = [], score = 1\<rparr>]
       (js ''cat'') =
     (ResultList [\<lparr>href = js ''/about/'', textContent = js ''Untitled'', snippetHtml = None\<rparr>,
                  \<lparr>href = js ''#'', textContent = js ''Untitled'', snippetHtml = None\<rparr>],
      None)"
proof -
  let ?hits = "[\<lparr>ref = js ''/about/'', score = 1\<rparr>, \<lparr>ref = [], score = 1\<rparr>]"
  have 0: "0 < length ?hits" and 1: "1 < length ?hits"
    by simp_all
  have m0: "Map.empty (ref (?hits ! 0)) = (None :: doc option)"
    and m1: "Map.empty (ref (?hits ! 1)) = (None :: doc option)"
    by simp_all
  note r = render_missing_document [where toLowerCase = latin1LowerCase
      and store = Map.empty and hits = ?hits and rx = literalEngine and query = "js ''cat''"]
  from r [of 0, OF 0 m0] r [of 1, OF 1 m1]
  show ?thesis
    by (simp add: render_def js_def)
qed

section \<open>Properties of doSearch\<close>

lemma insertBy_insort:
  "insertBy (\<lambda>a b. score b - score a) x ys = insort_key (\<lambda>h. - score h) x ys"
  by (induction ys) simp_all

lemma sortBy_sort_key:
  "sortBy (\<lambda>a b. score b - score a) hits = sort_key (\<lambda>h. - score h) hits"
  unfolding sortBy_def sort_key_def
  by (induction hits) (simp_all add: insertBy_insort)

lemma sortBy_sorted: "sorted_wrt (\<lambda>a b. score b \<le> score a) (sortBy (\<lambda>a b. score b - score a) hits)"
proof -
  have "sorted (map (\<lambda>h. - score h) (sort_key (\<lambda>h. - score h) hits))"
    by (rule sorted_sort_key)
  then show ?thesis
    by (simp add: sortBy_sort_key sorted_map)
qed

lemma sortBy_stable:
  "filter (\<lambda>h. score h = s) (sortBy (\<lambda>a b. score b - score a) hits) = filter (\<lambda>h. score h = s) hits"
  using sort_key_stable [of "\<lambda>h. - score h" "- s" hits]
  by (simp add: sortBy_sort_key)

lemma sortBy_mset: "mset (sortBy (\<lambda>a b. score b - score a) hits) = mset hits"
  by (simp add: sortBy_sort_key)

text \<open>
  C8. When the trimmed query has fewer than two characters, \<open>doSearch\<close> empties the
  results container and returns: the index is not searched (the list of search calls
  is as before), nothing is ranked or rendered, and no exception is raised.
\<close>

theorem doSearch_short_query:
  assumes "length (trim q) < 2"
  shows "doSearch toLowerCase rx idx q pg = (pg\<lparr>resultsEl := Cleared\<rparr>, None)"
  using assms by (simp add: doSearch_def Let_def)

text \<open>
  C9. For a trimmed query of at least two characters, \<open>doSearch\<close> searches the index
  once and renders the first 20 entries of the hits sorted by descending score: the
  sorted list is a rearrangement of the hits, hits of equal score keep the order the
  index gave them, at most 20 are kept, and the items shown are the renderings of these
  hits in this order.
\<close>

theorem doSearch_ranked_top20:
  assumes "2 \<le> length (trim q)"
  shows "let query = trim q;
             opts = searchOpts (idxFields idx);
             hits = idxSearch idx query opts;
             ranked = sortBy (\<lambda>a b. score b - score a) hits;
             top = take 20 ranked
         in doSearch toLowerCase rx idx q pg =
              (pg\<lparr>resultsEl := fst (render toLowerCase rx (idxDocs idx) top query),
                  searchCalls := searchCalls pg @ [(query, opts)]\<rparr>,
               snd (render toLowerCase rx (idxDocs idx) top query)) \<and>
            mset ranked = mset hits \<and>
            sorted_wrt (\<lambda>a b. score b \<le> score a) ranked \<and>
            (\<forall>s. filter (\<lambda>h. score h = s) ranked = filter (\<lambda>h. score h = s) hits) \<and>
            length top = min 20 (length hits) \<and>
            (\<forall>items. fst (render toLowerCase rx (idxDocs idx) top query) = ResultList items \<longrightarrow>
               length items = length top \<and>
               (\<forall>i < length top. renderHit toLowerCase rx (idxDocs idx) query (top ! i) = Inr (items ! i)))"
proof -
  let ?query = "trim q" and ?opts = "searchOpts (idxFields idx)"
  let ?hits = "idxSearch idx ?query ?opts"
  let ?ranked = "sortBy (\<lambda>a b. score b - score a) ?hits"
  let ?top = "take 20 ?ranked"
  have run: "doSearch toLowerCase rx idx q pg =
      (pg\<lparr>resultsEl := fst (render toLowerCase rx (idxDocs idx) ?top ?query),
          searchCalls := searchCalls pg @ [(?query, ?opts)]\<rparr>,
       snd (render toLowerCase rx (idxDocs idx) ?top ?query))"
    using assms by (simp add: doSearch_def Let_def topHits_def split_beta)
  have len: "length ?top = min 20 (length ?hits)"
    using arg_cong [OF sortBy_mset [of ?hits], of size] by (simp add: min.commute)
  have items: "length items = length ?top \<and>
      (\<forall>i < length ?top. renderHit toLowerCase rx (idxDocs idx) ?query (?top ! i) = Inr (items ! i))"
    if "fst (render toLowerCase rx (idxDocs idx) ?top ?query) = ResultList items" for items
  proof -
    from that have "render toLowerCase rx (idxDocs idx) ?top ?query = (ResultList items, None)"
      by (auto simp: render_def split: if_splits sum.splits)
    then show ?thesis by (rule render_items)
  qed
  show ?thesis
    unfolding Let_def
    using run len items sortBy_mset [of ?hits] sortBy_sorted [of ?hits] sortBy_stable [of _ ?hits]
    by blast
qed


theorem doSearch_short_query_witness:
  "length (trim (js ''  a  '')) < 2 \<and>
   doSearch latin1LowerCase literalEngine
     \<lparr>idxFields = [js ''title'', js ''body''],
      idxSearch = (\<lambda>query opts. [\<lparr>ref = js ''/a/'', score = 1\<rparr>]),
      idxDocs = Map.empty\<rparr>
     (js ''  a  '') \<lparr>resultsEl = NoResults, searchCalls = []\<rparr> =
     (\<lparr>resultsEl = Cleared, searchCalls = []\<rparr>, None)"
proof -
  have short: "length (trim (js ''  a  '')) < 2"
    by (simp add: trim_def js_def isWhiteSpace_def)
  from doSearch_short_query [OF short] short show ?thesis
    by simp
qed

theorem doSearch_ranked_top20_witness:
  "2 \<le> length (trim (js '' cat '')) \<and>
   doSearch latin1LowerCase literalEngine
     \<lparr>idxFields = [js ''title'', js ''body''],
      idxSearch = (\<lambda>query opts.
        [\<lparr>ref = js ''/a/'', score = 1\<rparr>, \<lparr>ref = js ''/b/'', score = 2\<rparr>,
         \<lparr>ref = js ''/c/'', score = 1\<rparr>, \<lparr>ref = js ''/d/'', score = 2\<rparr>]),
      idxDocs = [js ''/b/'' \<mapsto>
        \<lparr>permalink = Some (js ''/cats/''), url = None, title = Some (js ''Cats''),
         summary = None, description = None, content = None,
         body = Some (js ''Cats are great pets'')\<rparr>]\<rparr>
     (js '' cat '') \<lparr>resultsEl = Cleared, searchCalls = []\<rparr> =
     (\<lparr>resultsEl = ResultList
         [\<lparr>href = js ''/cats/'', textContent = js ''Cats'',
           snippetHtml = Some (js ''<mark>Cat</mark>s are great pets'')\<rparr>,
          \<lparr>href = js ''/d/'', textContent = js ''Untitled'', snippetHtml = None\<rparr>,
          \<lparr>href = js ''/a/'', textContent = js ''Untitled'', snippetHtml = None\<rparr>,
          \<lparr>href = js ''/c/'', textContent = js ''Untitled'', snippetHtml = None\<rparr>],
       searchCalls = [(js ''cat'',
         \<lparr>optBool = js ''OR'', optExpand = True,
          optFields = Some [(js ''title'', 8), (js ''body'', 2)]\<rparr>)]\<rparr>,
      None) \<and>
   length (take 20 (sortBy (\<lambda>a b. score b - score a)
     (replicate 25 \<lparr>ref = js ''/a/'', score = 1\<rparr>))) = 20"
proof -
  have long: "2 \<le> length (trim (js '' cat ''))"
    by (simp add: trim_def js_def isWhiteSpace_def)
  have q: "trim (js '' cat '') = js ''cat''"
    by (simp add: trim_def js_def isWhiteSpace_def)
  note r = doSearch_ranked_top20 [OF long, where toLowerCase = latin1LowerCase and rx = literalEngine
      and pg = "\<lparr>resultsEl = Cleared, searchCalls = []\<rparr>"]
  from r [where idx = "\<lparr>idxFields = [], idxSearch = (\<lambda>query opts. replicate 25 \<lparr>ref = js ''/a/'', score = 1\<rparr>),
      idxDocs = Map.empty\<rparr>"]
  have many: "length (take 20 (sortBy (\<lambda>a b. score b - score a)
     (replicate 25 \<lparr>ref = js ''/a/'', score = 1\<rparr>))) = 20"
    unfolding Let_def by simp
  from r [where idx = "\<lparr>idxFields = [js ''title'', js ''body''],
      idxSearch = (\<lambda>query opts.
        [\<lparr>ref = js ''/a/'', score = 1\<rparr>, \<lparr>ref = js ''/b/'', score = 2\<rparr>,
         \<lparr>ref = js ''/c/'', score = 1\<rparr>, \<lparr>ref = js ''/d/'', score = 2\<rparr>]),
      idxDocs = [js ''/b/'' \<mapsto>
        \<lparr>permalink = Some (js ''/cats/''), url = None, title = Some (js ''Cats''),
         summary = None, description = None, content = None,
         body = Some (js ''Cats are great pets'')\<rparr>]\<rparr>"]
  show ?thesis
    unfolding Let_def q
    using long many
    by (simp add: run_simps sortBy_def render_def renderHit_def emptyDoc_def searchOpts_def
        boostedFields_def)
qed

end
